theory Spec2Isabelle
  imports Main
begin

section \<open>Config Store\<close>

text \<open>
  The categories of \<^verbatim>\<open>ParamKeyType\<close> that \<^verbatim>\<open>manager.py\<close> uses. The store itself
  (\<^verbatim>\<open>openpilot.common.params.Params\<close>) is a collaborator: it is a persistent dictionary
  from key names to values, here a map from strings to strings.
\<close>

datatype ParamKeyType =
    CLEAR_ON_MANAGER_START
  | CLEAR_ON_ONROAD_TRANSITION
  | CLEAR_ON_OFFROAD_TRANSITION
  | DEVELOPMENT_ONLY

type_synonym params = "string \<rightharpoonup> string"

text \<open>
  The table that tags every key with its categories belongs to the store and is a
  parameter \<open>kt\<close> of the model.
\<close>

type_synonym key_types = "string \<Rightarrow> ParamKeyType list"

text \<open>
  Modelled from the spec: the Config Store API (section 6) of \<^verbatim>\<open>Params\<close>, which is not
  part of the sources: \<^verbatim>\<open>clear_all(category)\<close> removes every key tagged with the category,
  \<^verbatim>\<open>get(key)\<close> gives the value or absent, \<^verbatim>\<open>put(key, value)\<close> stores the value, and a
  boolean is stored as \<^verbatim>\<open>"1"\<close> or \<^verbatim>\<open>"0"\<close>, so that \<^verbatim>\<open>get_bool\<close> of an absent key is false.
\<close>

definition clear_all :: "key_types \<Rightarrow> ParamKeyType \<Rightarrow> params \<Rightarrow> params" where
  "clear_all kt t p = (\<lambda>k. if t \<in> set (kt k) then None else p k)"

definition get_bool :: "params \<Rightarrow> string \<Rightarrow> bool" where
  "get_bool p k = (p k = Some ''1'')"

definition put :: "params \<Rightarrow> string \<Rightarrow> string \<Rightarrow> params" where
  "put p k v = p(k \<mapsto> v)"

definition put_bool :: "params \<Rightarrow> string \<Rightarrow> bool \<Rightarrow> params" where
  "put_bool p k b = put p k (if b then ''1'' else ''0'')"

text \<open>Writes of collaborators (the UI, a remote command), in the order they land.\<close>

fun apply_puts :: "params \<Rightarrow> (string \<times> string) list \<Rightarrow> params" where
  "apply_puts p [] = p"
| "apply_puts p ((k, v) # kvs) = apply_puts (put p k v) kvs"

section \<open>Observable actions\<close>

text \<open>
  The calls of \<^verbatim>\<open>manager.py\<close> to the Config Store, to the registration, to the
  processes and the Reconciler, to the health publisher, to the error reporter and to
  the host are recorded as events, in program order, and so are the \<^verbatim>\<open>cloudlog\<close> calls
  with a fixed text. Not recorded are the calls that set up the program (\<^verbatim>\<open>set_time\<close>,
  \<^verbatim>\<open>save_bootlog\<close>, the removal of the old error log, \<^verbatim>\<open>os.mkdir\<close>, \<^verbatim>\<open>sentry.init\<close>,
  \<^verbatim>\<open>cloudlog.bind_global\<close>, \<^verbatim>\<open>signal.signal\<close>), the writes of the one-time migration
  of lines 188 to 221, \<^verbatim>\<open>sm.update\<close>, and \<^verbatim>\<open>print\<close> and debug output, whose text
  depends on the liveness of the processes.
\<close>

datatype event =
    ClearAll ParamKeyType
  | Put string string
  | WriteOnroadParams bool
  | Register
  | Prepare string
  | SetModel
  | EnsureRunning bool "string list"
  | SendManagerState "string list"
  | Stop string bool
  | Info string
  | Warning string
  | RemovePrebuilt
  | CaptureException
  | Uninstall
  | Reboot
  | Shutdown

text \<open>
  Python exceptions: \<^verbatim>\<open>SystemExit\<close> is a \<^verbatim>\<open>BaseException\<close> and is not caught by
  \<^verbatim>\<open>except Exception\<close>.
\<close>

datatype exn = Exception string | SystemExit nat

fun is_clear :: "event \<Rightarrow> bool" where
  "is_clear (ClearAll t) = True"
| "is_clear e = False"

fun is_reconcile :: "event \<Rightarrow> bool" where
  "is_reconcile (EnsureRunning s ign) = True"
| "is_reconcile e = False"

fun is_send :: "event \<Rightarrow> bool" where
  "is_send (SendManagerState ps) = True"
| "is_send e = False"

fun is_stop :: "event \<Rightarrow> bool" where
  "is_stop (Stop n b) = True"
| "is_stop e = False"

section \<open>One tick of the supervisor loop\<close>

text \<open>
  What the world outside \<^verbatim>\<open>manager.py\<close> contributes to one iteration of the
  \<^verbatim>\<open>while True\<close> loop of \<^verbatim>\<open>manager_thread\<close>:
  \<^item> \<open>ext_puts\<close>: the writes of collaborators to the Config Store that have landed when
    \<^verbatim>\<open>sm.update()\<close> returns;
  \<^item> \<open>started\<close>: \<^verbatim>\<open>sm['deviceState'].started\<close>;
  \<^item> \<open>ensure_running_raises\<close>, \<open>send_raises\<close>: the exception, if any, that surfaces in
    the call of \<^verbatim>\<open>ensure_running\<close> or of \<^verbatim>\<open>pm.send\<close> (a tick-level error; the
    \<^verbatim>\<open>SystemExit\<close> of the SIGTERM handler is one of them);
  \<^item> \<open>now\<close>: the clock of the iteration; \<open>now te i\<close> is the text of what the call
    number \<open>i\<close> (from 0) of \<^verbatim>\<open>datetime.datetime.now()\<close> in this iteration returns.
\<close>

record tick_env =
  ext_puts :: "(string \<times> string) list"
  started :: bool
  ensure_running_raises :: "exn option"
  send_raises :: "exn option"
  now :: "nat \<Rightarrow> string"

datatype tick_result = Continue | Break | TickRaised exn

text \<open>Lines 309 to 316: the clears and the onroad parameters of a mode transition; \<open>st\<close> is
  \<^verbatim>\<open>started\<close> and \<open>sp\<close> is \<^verbatim>\<open>started_prev\<close>.\<close>

definition mode_transition ::
  "key_types \<Rightarrow> bool \<Rightarrow> bool \<Rightarrow> params \<Rightarrow> event list \<times> params" where
  "mode_transition kt st sp p =
     (let (ev1, p1) =
            (if st \<and> \<not> sp then
               ([ClearAll CLEAR_ON_ONROAD_TRANSITION], clear_all kt CLEAR_ON_ONROAD_TRANSITION p)
             else if \<not> st \<and> sp then
               ([ClearAll CLEAR_ON_OFFROAD_TRANSITION], clear_all kt CLEAR_ON_OFFROAD_TRANSITION p)
             else ([], p));
          ev2 = (if st \<noteq> sp then [WriteOnroadParams st] else [])
      in (ev1 @ ev2, p1))"

text \<open>Line 337: the value \<^verbatim>\<open>f"{param} {datetime.datetime.now()}"\<close>.\<close>

definition exit_reason :: "string \<Rightarrow> string \<Rightarrow> string" where
  "exit_reason param ts = param @ '' '' @ ts"

text \<open>
  Lines 332 to 338: the loop over the three flags. The clock is read inside the loop,
  once for each flag that reads true: \<open>n\<close> counts the reads made so far, so that the
  next one returns \<open>clock n\<close>. The result is the events, the store and the value of
  \<^verbatim>\<open>shutdown\<close>.
\<close>

fun check_flags ::
  "(nat \<Rightarrow> string) \<Rightarrow> nat \<Rightarrow> string list \<Rightarrow> params \<Rightarrow> bool \<Rightarrow> event list \<times> params \<times> bool" where
  "check_flags clock n [] p shutdown = ([], p, shutdown)"
| "check_flags clock n (param # rest) p shutdown =
     (if get_bool p param then
        (let v = exit_reason param (clock n);
             (ev, p', sd) =
               check_flags clock (Suc n) rest (put p ''LastManagerExitReason'' v) True
         in (Put ''LastManagerExitReason'' v
               # Warning (''Shutting down manager - '' @ param @ '' set'') # ev, p', sd))
      else check_flags clock n rest p shutdown)"

definition shutdown_flags :: "string list" where
  "shutdown_flags = [''DoUninstall'', ''DoShutdown'', ''DoReboot'']"

definition check_shutdown :: "(nat \<Rightarrow> string) \<Rightarrow> params \<Rightarrow> event list \<times> params \<times> bool" where
  "check_shutdown clock p = check_flags clock 0 shutdown_flags p False"

text \<open>
  Lines 305 to 341: one iteration. \<open>procs\<close> are the names of \<^verbatim>\<open>managed_processes\<close> in
  dictionary order, \<open>ign\<close> is the list \<^verbatim>\<open>ignore\<close>, \<open>sp\<close> is \<^verbatim>\<open>started_prev\<close>.
\<close>

definition tick ::
  "key_types \<Rightarrow> string list \<Rightarrow> string list \<Rightarrow> tick_env \<Rightarrow> bool \<Rightarrow> params
     \<Rightarrow> event list \<times> params \<times> tick_result" where
  "tick kt procs ign te sp p =
     (let p0 = apply_puts p (ext_puts te);
          (ev1, p1) = mode_transition kt (started te) sp p0;
          ev2 = ev1 @ [EnsureRunning (started te) ign]
      in case ensure_running_raises te of
           Some e \<Rightarrow> (ev2, p1, TickRaised e)
         | None \<Rightarrow>
            (let ev3 = ev2 @ [SendManagerState procs]
             in case send_raises te of
                  Some e \<Rightarrow> (ev3, p1, TickRaised e)
                | None \<Rightarrow>
                   (let (ev4, p2, shutdown) = check_shutdown (now te) p1
                    in (ev3 @ ev4, p2, if shutdown then Break else Continue))))"

definition tick_events ::
  "key_types \<Rightarrow> string list \<Rightarrow> string list \<Rightarrow> tick_env \<Rightarrow> bool \<Rightarrow> params \<Rightarrow> event list" where
  "tick_events kt procs ign te sp p = fst (tick kt procs ign te sp p)"

section \<open>The supervisor loop\<close>

text \<open>
  The \<^verbatim>\<open>while True\<close> loop of \<^verbatim>\<open>manager_thread\<close> consumes one \<open>tick_env\<close> per
  iteration. When the list is used up the loop has not returned: it is \<open>Pending\<close> in
  \<^verbatim>\<open>sm.update()\<close>.
\<close>

datatype thread_result = Returned | Raised exn | Pending

fun manager_loop ::
  "key_types \<Rightarrow> string list \<Rightarrow> string list \<Rightarrow> tick_env list \<Rightarrow> bool \<Rightarrow> params
     \<Rightarrow> event list \<times> params \<times> thread_result" where
  "manager_loop kt procs ign [] sp p = ([], p, Pending)"
| "manager_loop kt procs ign (te # tes) sp p =
     (case tick kt procs ign te sp p of
        (ev, p', r) \<Rightarrow>
          (case r of
             Continue \<Rightarrow>
               (case manager_loop kt procs ign tes (started te) p' of
                  (ev', p'', r') \<Rightarrow> (ev @ ev', p'', r'))
           | Break \<Rightarrow> (ev, p', Returned)
           | TickRaised e \<Rightarrow> (ev, p', Raised e)))"

text \<open>The variables of the process environment that \<^verbatim>\<open>manager.py\<close> reads.\<close>

record os_env =
  PREPAREONLY :: "string option"
  NOBOARD :: "string option"
  BLOCK :: "string option"

text \<open>Python's \<^verbatim>\<open>s.split(",")\<close>: the empty string gives one empty field.\<close>

fun split_comma :: "string \<Rightarrow> string list" where
  "split_comma [] = [[]]"
| "split_comma (c # cs) =
     (if c = CHR '','' then [] # split_comma cs
      else (case split_comma cs of
              [] \<Rightarrow> [[c]]
            | w # ws \<Rightarrow> (c # w) # ws))"

text \<open>
  Lines 289 to 294: the list \<^verbatim>\<open>ignore\<close>. \<open>unreg\<close> is the constant
  \<^verbatim>\<open>UNREGISTERED_DONGLE_ID\<close> of the registration module.
\<close>

definition ignore_list :: "string \<Rightarrow> os_env \<Rightarrow> params \<Rightarrow> string list" where
  "ignore_list unreg env p =
     (if p ''DongleId'' = None \<or> p ''DongleId'' = Some unreg
      then [''manage_athenad'', ''uploader''] else [])
     @ (if NOBOARD env \<noteq> None then [''pandad''] else [])
     @ filter (\<lambda>x. length x > 0)
         (split_comma (case BLOCK env of None \<Rightarrow> [] | Some b \<Rightarrow> b))"

definition manager_thread ::
  "key_types \<Rightarrow> string list \<Rightarrow> string \<Rightarrow> os_env \<Rightarrow> tick_env list \<Rightarrow> params
     \<Rightarrow> event list \<times> params \<times> thread_result" where
  "manager_thread kt procs unreg env tes p =
     (let ign = ignore_list unreg env p;
          ev0 = [Info ''manager start'', WriteOnroadParams False, EnsureRunning False ign]
      in case manager_loop kt procs ign tes False p of
           (ev, p', r) \<Rightarrow> (ev0 @ ev, p', r))"

section \<open>Initialisation\<close>

text \<open>
  What \<^verbatim>\<open>manager_init\<close> takes from outside \<^verbatim>\<open>manager.py\<close>:
  \<^item> \<open>is_release_branch\<close> and the other results of the version module;
  \<^item> \<open>default_params\<close>: the table of lines 50 to 178, whose entries depend on the branch
    and on \<^verbatim>\<open>PC\<close>;
  \<^item> \<open>legacy_migration\<close>: the effect on the store of lines 188 to 221, the one-time
    migration of \<^verbatim>\<open>PreviousSpeedLimit\<close> and \<^verbatim>\<open>SLCPriority\<close>, written with typed
    accessors of the store that are not part of the sources;
  \<^item> \<open>register_result\<close>: what \<^verbatim>\<open>register(show_spinner=True)\<close> returns;
  \<^item> \<open>prepare_raises\<close>: for each process, the exception that its \<^verbatim>\<open>prepare()\<close> raises,
    if any.
\<close>

record init_env =
  is_release_branch :: bool
  is_tested_branch :: bool
  get_version :: string
  terms_version :: string
  training_version :: string
  get_commit :: string
  get_short_branch :: string
  get_origin :: string
  default_params :: "(string \<times> string) list"
  legacy_migration :: "params \<Rightarrow> params"
  register_result :: "string option"
  prepare_raises :: "string \<Rightarrow> exn option"

text \<open>Lines 183 to 186: set the parameters that are not set.\<close>

fun set_unset_params :: "(string \<times> string) list \<Rightarrow> params \<Rightarrow> event list \<times> params" where
  "set_unset_params [] p = ([], p)"
| "set_unset_params ((k, v) # kvs) p =
     (if p k = None then
        (case set_unset_params kvs (put p k v) of (ev, p') \<Rightarrow> (Put k v # ev, p'))
      else set_unset_params kvs p)"

text \<open>A sequence of \<^verbatim>\<open>params.put\<close> calls, each recorded.\<close>

fun put_all :: "(string \<times> string) list \<Rightarrow> params \<Rightarrow> event list \<times> params" where
  "put_all [] p = ([], p)"
| "put_all ((k, v) # kvs) p =
     (case put_all kvs (put p k v) of (ev, p') \<Rightarrow> (Put k v # ev, p'))"

definition bool_str :: "bool \<Rightarrow> string" where
  "bool_str b = (if b then ''1'' else ''0'')"

text \<open>Lines 232 to 239.\<close>

definition version_params :: "init_env \<Rightarrow> (string \<times> string) list" where
  "version_params ie =
     [(''Version'', get_version ie),
      (''TermsVersion'', terms_version ie),
      (''TrainingVersion'', training_version ie),
      (''GitCommit'', get_commit ie),
      (''GitBranch'', get_short_branch ie),
      (''GitRemote'', get_origin ie),
      (''IsTestedBranch'', bool_str (is_tested_branch ie)),
      (''IsReleaseBranch'', bool_str (is_release_branch ie))]"

text \<open>
  Lines 263 to 265: the loop over \<^verbatim>\<open>managed_processes.values()\<close>. There is no
  \<^verbatim>\<open>try\<close> around \<^verbatim>\<open>p.prepare()\<close>: an exception leaves the loop.
\<close>

fun prepare_all :: "(string \<Rightarrow> exn option) \<Rightarrow> string list \<Rightarrow> event list \<times> exn option" where
  "prepare_all pr [] = ([], None)"
| "prepare_all pr (n # ns) =
     (case pr n of
        Some e \<Rightarrow> ([Prepare n], Some e)
      | None \<Rightarrow> (case prepare_all pr ns of (ev, r) \<Rightarrow> (Prepare n # ev, r)))"

text \<open>
  Lines 41 to 186 of \<^verbatim>\<open>manager_init\<close>: the clears, \<^verbatim>\<open>RecordFront\<close> and the defaults.
\<close>

definition init_store :: "key_types \<Rightarrow> init_env \<Rightarrow> params \<Rightarrow> event list \<times> params" where
  "init_store kt ie p =
     (let p1 = clear_all kt CLEAR_ON_OFFROAD_TRANSITION
                 (clear_all kt CLEAR_ON_ONROAD_TRANSITION
                   (clear_all kt CLEAR_ON_MANAGER_START p));
          ev1 = [ClearAll CLEAR_ON_MANAGER_START, ClearAll CLEAR_ON_ONROAD_TRANSITION,
                 ClearAll CLEAR_ON_OFFROAD_TRANSITION];
          (ev2, p2) = (if is_release_branch ie
                       then ([ClearAll DEVELOPMENT_ONLY], clear_all kt DEVELOPMENT_ONLY p1)
                       else ([], p1));
          (ev3, p3) = (if get_bool p2 ''RecordFrontLock''
                       then ([Put ''RecordFront'' ''1''], put_bool p2 ''RecordFront'' True)
                       else ([], p2));
          (ev4, p4) = set_unset_params (default_params ie) p3
      in (ev1 @ ev2 @ ev3 @ ev4, p4))"

text \<open>
  The text of the exception of line 247, for a serial number of printable characters.
\<close>

definition registration_failed :: "params \<Rightarrow> exn" where
  "registration_failed p =
     Exception (''Registration failed for device '' @
       (case p ''HardwareSerial'' of
          None \<Rightarrow> ''None''
        | Some s \<Rightarrow> ''b'' @ [CHR 0x27] @ s @ [CHR 0x27]))"

text \<open>
  \<^verbatim>\<open>manager_init\<close>: the events, the store, and the exception that ended it, if any.
\<close>

definition manager_init ::
  "key_types \<Rightarrow> string list \<Rightarrow> init_env \<Rightarrow> params \<Rightarrow> event list \<times> params \<times> exn option" where
  "manager_init kt procs ie p =
     (let (ev1, p1) = init_store kt ie p;
          p2 = legacy_migration ie p1;
          (ev3, p3) = put_all (version_params ie) p2;
          ev = ev1 @ ev3 @ [Register]
      in if register_result ie = None \<or> register_result ie = Some []
         then (ev, p3, Some (registration_failed p3))
         else (case prepare_all (prepare_raises ie) procs of
                 (ev4, Some e) \<Rightarrow> (ev @ ev4, p3, Some e)
               | (ev4, None) \<Rightarrow> (ev @ ev4 @ [SetModel], p3, None)))"

section \<open>Cleanup and the terminal action\<close>

text \<open>Lines 270 to 279.\<close>

definition manager_cleanup :: "string list \<Rightarrow> event list" where
  "manager_cleanup procs =
     map (\<lambda>n. Stop n False) procs @ map (\<lambda>n. Stop n True) procs
       @ [Info ''everything is dead'']"

text \<open>Lines 364 to 373.\<close>

definition terminal_action :: "params \<Rightarrow> event list" where
  "terminal_action p =
     (if get_bool p ''DoUninstall'' then [Warning ''uninstalling'', Uninstall]
      else if get_bool p ''DoReboot'' then [Warning ''reboot'', Reboot]
      else if get_bool p ''DoShutdown'' then [Warning ''shutdown'', Shutdown]
      else [])"

text \<open>
  What \<^verbatim>\<open>main\<close> takes from outside: the process environment, whether the prebuilt file
  exists, the ticks of the loop, and the writes of collaborators to the store that land
  while \<^verbatim>\<open>manager_cleanup\<close> waits for the processes.
\<close>

record main_env =
  os :: os_env
  init :: init_env
  prebuilt_exists :: bool
  ticks :: "tick_env list"
  cleanup_puts :: "(string \<times> string) list"

text \<open>
  How \<^verbatim>\<open>main\<close> ends: it returns, an exception leaves it, or it is still in the loop.
\<close>

datatype main_result = Exited | Propagated exn | Running

text \<open>
  Lines 344 to 373. An exception of \<^verbatim>\<open>manager_init\<close> leaves \<^verbatim>\<open>main\<close> at once. With
  \<^verbatim>\<open>PREPAREONLY\<close> set \<^verbatim>\<open>main\<close> returns after \<^verbatim>\<open>manager_init\<close>. Otherwise
  \<^verbatim>\<open>manager_thread\<close> runs inside \<^verbatim>\<open>try\<close>: an \<^verbatim>\<open>Exception\<close> is caught and reported, the
  \<^verbatim>\<open>finally\<close> clause runs \<^verbatim>\<open>manager_cleanup\<close> in every case, and a \<^verbatim>\<open>SystemExit\<close>, which
  \<^verbatim>\<open>except Exception\<close> does not catch, leaves \<^verbatim>\<open>main\<close> after the cleanup, so that the
  flags of lines 364 to 373 are read only when the loop returned or its exception was
  caught.
\<close>

definition main ::
  "key_types \<Rightarrow> string list \<Rightarrow> string \<Rightarrow> main_env \<Rightarrow> params
     \<Rightarrow> event list \<times> params \<times> main_result" where
  "main kt procs unreg me p =
     (case manager_init kt procs (init me) p of
        (ev0, p0, Some e) \<Rightarrow> (ev0, p0, Propagated e)
      | (ev0, p0, None) \<Rightarrow>
          if PREPAREONLY (os me) \<noteq> None then (ev0, p0, Exited)
          else
            (let ev1 = ev0 @ (if prebuilt_exists me then [RemovePrebuilt] else [])
             in case manager_thread kt procs unreg (os me) (ticks me) p0 of
                  (ev2, p2, r) \<Rightarrow>
                    (let p3 = apply_puts p2 (cleanup_puts me);
                         cl = manager_cleanup procs
                     in case r of
                          Pending \<Rightarrow> (ev1 @ ev2, p2, Running)
                        | Returned \<Rightarrow>
                            (ev1 @ ev2 @ cl @ terminal_action p3, p3, Exited)
                        | Raised (Exception m) \<Rightarrow>
                            (ev1 @ ev2 @ [CaptureException] @ cl @ terminal_action p3, p3, Exited)
                        | Raised (SystemExit c) \<Rightarrow>
                            (ev1 @ ev2 @ cl, p3, Propagated (SystemExit c)))))"

section \<open>The process registry and the reconciler\<close>

text \<open>
  Modelled from the spec: the Managed Process Descriptor (section 3) and the Reconciler
  (section 4.2). \<^verbatim>\<open>ensure_running\<close> and the process class are imported from
  \<^verbatim>\<open>openpilot.selfdrive.manager.process\<close>, which is not part of the sources;
  \<^verbatim>\<open>manager.py\<close> only calls \<^verbatim>\<open>ensure_running\<close> (lines 300 and 320) with the registry,
  \<^verbatim>\<open>started\<close> and the list \<^verbatim>\<open>ignore\<close> (as \<^verbatim>\<open>not_run\<close>); the event \<open>EnsureRunning\<close>
  records that call.
\<close>

datatype run_condition = ALWAYS | ONROAD_ONLY

datatype observed_state = STOPPED | STARTING | RUNNING | STOPPING | CRASHED

record descriptor =
  name :: string
  run_condition :: run_condition
  observed_state :: observed_state

text \<open>
  Modelled from the spec: the desired state of section 4.2, true when the process is to run:
  \<^verbatim>\<open>ALWAYS\<close> processes run unless in the ignore set, \<^verbatim>\<open>ONROAD_ONLY\<close> processes run iff
  the operating mode is onroad and they are not in the ignore set. \<open>onroad\<close> is the
  value of \<^verbatim>\<open>started\<close> and \<open>ign\<close> the list \<^verbatim>\<open>ignore\<close>.
\<close>

definition desired_state :: "descriptor \<Rightarrow> bool \<Rightarrow> string list \<Rightarrow> bool" where
  "desired_state d onroad ign =
     (case run_condition d of
        ALWAYS \<Rightarrow> name d \<notin> set ign
      | ONROAD_ONLY \<Rightarrow> onroad \<and> name d \<notin> set ign)"

text \<open>
  Modelled from the spec: the actions of the Reconciler (section 4.2). For a process
  whose desired state is running and whose observed state is neither \<^verbatim>\<open>RUNNING\<close> nor
  \<^verbatim>\<open>STARTING\<close> it issues a start action; for a process whose desired state is stopped
  and whose observed state is neither \<^verbatim>\<open>STOPPED\<close> nor \<^verbatim>\<open>STOPPING\<close> it issues a stop
  request, which is not waited on. The descriptor it returns records the action taken:
  a process that has been started is \<^verbatim>\<open>STARTING\<close> and one that has been asked to stop
  is \<^verbatim>\<open>STOPPING\<close>; the later transitions (to \<^verbatim>\<open>RUNNING\<close>, \<^verbatim>\<open>STOPPED\<close> or \<^verbatim>\<open>CRASHED\<close>)
  are made by the process wrapper, outside the Reconciler.
\<close>

datatype action = Start string | RequestStop string

definition reconcile_process ::
  "bool \<Rightarrow> string list \<Rightarrow> descriptor \<Rightarrow> action list \<times> descriptor" where
  "reconcile_process onroad ign d =
     (if desired_state d onroad ign then
        (if observed_state d = RUNNING \<or> observed_state d = STARTING then ([], d)
         else ([Start (name d)], d\<lparr>observed_state := STARTING\<rparr>))
      else
        (if observed_state d = STOPPED \<or> observed_state d = STOPPING then ([], d)
         else ([RequestStop (name d)], d\<lparr>observed_state := STOPPING\<rparr>)))"

text \<open>
  Modelled from the spec: \<^verbatim>\<open>reconcile(registry, operating_mode, ignore_set)\<close>. The
  registry is the list of the descriptors in registry order; the actions are issued in
  that order. The result is the actions issued and the registry afterwards.
\<close>

fun reconcile ::
  "descriptor list \<Rightarrow> bool \<Rightarrow> string list \<Rightarrow> action list \<times> descriptor list" where
  "reconcile [] onroad ign = ([], [])"
| "reconcile (d # ds) onroad ign =
     (case reconcile_process onroad ign d of
        (a, d') \<Rightarrow>
          (case reconcile ds onroad ign of
             (as, ds') \<Rightarrow> (a @ as, d' # ds')))"

section \<open>Notions used in the statements\<close>

text \<open>The store that the flag loop of a tick reads: the one the mode transition leaves.\<close>

definition store_at_check :: "key_types \<Rightarrow> tick_env \<Rightarrow> bool \<Rightarrow> params \<Rightarrow> params" where
  "store_at_check kt te sp p =
     snd (mode_transition kt (started te) sp (apply_puts p (ext_puts te)))"

fun is_exit_reason_put :: "event \<Rightarrow> bool" where
  "is_exit_reason_put (Put k v) = (k = ''LastManagerExitReason'')"
| "is_exit_reason_put e = False"

text \<open>The two calls of lines 337 and 338 for one flag.\<close>

definition flag_events :: "string \<Rightarrow> string \<Rightarrow> event list" where
  "flag_events ts param =
     [Put ''LastManagerExitReason'' (exit_reason param ts),
      Warning (''Shutting down manager - '' @ param @ '' set'')]"

text \<open>
  The calls of lines 337 and 338 for the flags \<open>fs\<close>, one after the other, when \<open>n\<close>
  readings of the clock have been made before.
\<close>

fun flags_events :: "(nat \<Rightarrow> string) \<Rightarrow> nat \<Rightarrow> string list \<Rightarrow> event list" where
  "flags_events clock n [] = []"
| "flags_events clock n (f # fs) = flag_events (clock n) f @ flags_events clock (Suc n) fs"

text \<open>The flags that read true, in the order of the loop.\<close>

definition set_flags :: "params \<Rightarrow> string list" where
  "set_flags p = filter (get_bool p) shutdown_flags"

section \<open>Concrete runs\<close>

text \<open>
  A store without tagged keys, a clock whose first two readings differ, a tick in which
  the UI has asked for a reboot, and one in which an uninstall and a reboot have been
  asked for.
\<close>

definition no_tags :: key_types where
  "no_tags = (\<lambda>k. [])"

definition two_reads :: "nat \<Rightarrow> string" where
  "two_reads i =
     (if i = 0 then ''2024-06-14 08:00:00.000123'' else ''2024-06-14 08:00:00.000456'')"

definition reboot_tick :: tick_env where
  "reboot_tick =
     \<lparr>ext_puts = [(''DoReboot'', ''1'')], started = True, ensure_running_raises = None,
      send_raises = None, now = two_reads\<rparr>"

definition uninstall_reboot_tick :: tick_env where
  "uninstall_reboot_tick =
     \<lparr>ext_puts = [(''DoUninstall'', ''1''), (''DoReboot'', ''1'')], started = True,
      ensure_running_raises = None, send_raises = None, now = two_reads\<rparr>"

section \<open>Notions for initialisation and teardown\<close>

fun is_prepare :: "event \<Rightarrow> bool" where
  "is_prepare (Prepare n) = True"
| "is_prepare e = False"

text \<open>
  The events of \<^verbatim>\<open>manager_cleanup\<close>: the stops and its closing log line. Nothing else in
  \<^verbatim>\<open>manager.py\<close> issues them.
\<close>

fun is_cleanup :: "event \<Rightarrow> bool" where
  "is_cleanup (Stop n b) = True"
| "is_cleanup (Info s) = (s = ''everything is dead'')"
| "is_cleanup e = False"

text \<open>The irreversible operations on the host.\<close>

fun is_host_action :: "event \<Rightarrow> bool" where
  "is_host_action Uninstall = True"
| "is_host_action Reboot = True"
| "is_host_action Shutdown = True"
| "is_host_action e = False"

text \<open>
  Concrete collaborators: an initialisation in which registration succeeds and no
  \<^verbatim>\<open>prepare()\<close> fails, one in which the \<^verbatim>\<open>prepare()\<close> of \<^verbatim>\<open>ui\<close> raises, ticks that end in
  an exception or in the \<^verbatim>\<open>SystemExit\<close> of the SIGTERM handler, and whole runs of
  \<^verbatim>\<open>main\<close>.
\<close>

definition good_init :: init_env where
  "good_init =
     \<lparr>is_release_branch = False, is_tested_branch = False, get_version = ''0.9.7'',
      terms_version = ''2'', training_version = ''0.2.0'', get_commit = ''1a2b3c'',
      get_short_branch = ''FrogPilot'', get_origin = ''github.com/FrogAi/FrogPilot'',
      default_params = [(''LanguageSetting'', ''main_en''), (''OpenpilotEnabledToggle'', ''1'')],
      legacy_migration = (\<lambda>p. p), register_result = Some ''d0ng1e'',
      prepare_raises = (\<lambda>n. None)\<rparr>"

definition failing_init :: init_env where
  "failing_init =
     good_init\<lparr>prepare_raises :=
       (\<lambda>n. if n = ''ui'' then Some (Exception ''ImportError'') else None)\<rparr>"

definition plain_os :: os_env where
  "plain_os = \<lparr>PREPAREONLY = None, NOBOARD = None, BLOCK = None\<rparr>"

definition crash_tick :: tick_env where
  "crash_tick =
     \<lparr>ext_puts = [], started = False, ensure_running_raises = Some (Exception ''boom''),
      send_raises = None, now = two_reads\<rparr>"

definition sigterm_tick :: tick_env where
  "sigterm_tick =
     \<lparr>ext_puts = [(''DoReboot'', ''1'')], started = False,
      ensure_running_raises = Some (SystemExit 1),
      send_raises = None, now = two_reads\<rparr>"

definition crash_run :: main_env where
  "crash_run =
     \<lparr>os = plain_os, init = good_init, prebuilt_exists = True, ticks = [crash_tick],
      cleanup_puts = []\<rparr>"

definition prepare_only_run :: main_env where
  "prepare_only_run =
     \<lparr>os = plain_os\<lparr>PREPAREONLY := Some ''1''\<rparr>, init = good_init, prebuilt_exists = True,
      ticks = [crash_tick], cleanup_puts = []\<rparr>"

definition reboot_run :: main_env where
  "reboot_run =
     \<lparr>os = plain_os, init = good_init, prebuilt_exists = False, ticks = [reboot_tick],
      cleanup_puts = []\<rparr>"

definition sigterm_run :: main_env where
  "sigterm_run =
     \<lparr>os = plain_os, init = good_init, prebuilt_exists = False, ticks = [sigterm_tick],
      cleanup_puts = []\<rparr>"

text \<open>
  The store and the events of \<^verbatim>\<open>manager_init\<close> when it reaches the loop over the
  processes (lines 41 to 262).
\<close>

definition store_after_init :: "key_types \<Rightarrow> init_env \<Rightarrow> params \<Rightarrow> params" where
  "store_after_init kt ie p =
     snd (put_all (version_params ie) (legacy_migration ie (snd (init_store kt ie p))))"

definition events_before_prepare :: "key_types \<Rightarrow> init_env \<Rightarrow> params \<Rightarrow> event list" where
  "events_before_prepare kt ie p =
     fst (init_store kt ie p)
       @ fst (put_all (version_params ie) (legacy_migration ie (snd (init_store kt ie p))))
       @ [Register]"

text \<open>The two processes of the scenarios of section 8 of the spec.\<close>

definition proc_A :: descriptor where
  "proc_A = \<lparr>name = ''A'', run_condition = ALWAYS, observed_state = STOPPED\<rparr>"

definition proc_B :: descriptor where
  "proc_B = \<lparr>name = ''B'', run_condition = ONROAD_ONLY, observed_state = STOPPED\<rparr>"

section \<open>Mode transitions\<close>

lemma check_flags_no_clear:
  "check_flags clock n fs p sd = (ev, p', sd') \<Longrightarrow> filter is_clear ev = []"
  by (induction fs arbitrary: n p sd ev p' sd') (auto simp: Let_def split: prod.splits if_splits)

lemma tick_clears:
  "filter is_clear (tick_events kt procs ign te sp p) =
     filter is_clear (fst (mode_transition kt (started te) sp (apply_puts p (ext_puts te))))"
  by (auto simp: tick_events_def tick_def check_shutdown_def Let_def
           split: prod.splits option.splits dest: check_flags_no_clear)

text \<open>
  C3: in every tick, a rising edge (\<open>started\<close> true, \<open>started_prev\<close> false) performs exactly
  one bulk-clear of \<^verbatim>\<open>CLEAR_ON_ONROAD_TRANSITION\<close> and none of
  \<^verbatim>\<open>CLEAR_ON_OFFROAD_TRANSITION\<close>; a falling edge performs exactly one bulk-clear of
  \<^verbatim>\<open>CLEAR_ON_OFFROAD_TRANSITION\<close> and none of \<^verbatim>\<open>CLEAR_ON_ONROAD_TRANSITION\<close>; without an
  edge no category is cleared. The list on the left is every bulk-clear of the tick, in
  program order.
\<close>

theorem tick_edge_clears:
  "filter is_clear (tick_events kt procs ign te sp p) =
     (if started te \<and> \<not> sp then [ClearAll CLEAR_ON_ONROAD_TRANSITION]
      else if \<not> started te \<and> sp then [ClearAll CLEAR_ON_OFFROAD_TRANSITION]
      else [])"
  unfolding tick_clears by (simp add: mode_transition_def)

section \<open>The shutdown flags\<close>

lemma get_bool_put_other: "k \<noteq> k' \<Longrightarrow> get_bool (put p k v) k' = get_bool p k'"
  by (simp add: get_bool_def put_def)

lemma filter_get_bool_put:
  "k \<notin> set fs \<Longrightarrow> filter (get_bool (put p k v)) fs = filter (get_bool p) fs"
  by (induction fs) (auto simp: get_bool_def put_def)

lemma put_put: "put (put p k v) k w = put p k w"
  by (simp add: put_def)

lemma check_flags_char:
  "''LastManagerExitReason'' \<notin> set fs \<Longrightarrow>
   check_flags clock n fs p sd =
     (flags_events clock n (filter (get_bool p) fs),
      (case filter (get_bool p) fs of
         [] \<Rightarrow> p
       | g # gs \<Rightarrow> put p ''LastManagerExitReason''
                     (exit_reason (last (g # gs)) (clock (n + length gs)))),
      sd \<or> filter (get_bool p) fs \<noteq> [])"
proof (induction fs arbitrary: n p sd)
  case Nil
  then show ?case by simp
next
  case (Cons f fs)
  then have nf: "''LastManagerExitReason'' \<noteq> f" and nfs: "''LastManagerExitReason'' \<notin> set fs"
    by auto
  show ?case
  proof (cases "get_bool p f")
    case False
    then show ?thesis using Cons.IH [OF nfs] by simp
  next
    case True
    let ?q = "put p ''LastManagerExitReason'' (exit_reason f (clock n))"
    have fl: "filter (get_bool ?q) fs = filter (get_bool p) fs"
      using nfs by (rule filter_get_bool_put)
    show ?thesis
    proof (cases "filter (get_bool p) fs")
      case Nil
      then show ?thesis
        using True Cons.IH [OF nfs, of "Suc n" ?q True]
        by (simp add: fl Let_def flag_events_def)
    next
      case (Cons g gs)
      then show ?thesis
        using True Cons.IH [OF nfs, of "Suc n" ?q True]
        by (simp add: fl Let_def flag_events_def put_put)
    qed
  qed
qed

lemma check_shutdown_char:
  "check_shutdown clock p =
     (flags_events clock 0 (set_flags p),
      (case set_flags p of
         [] \<Rightarrow> p
       | g # gs \<Rightarrow> put p ''LastManagerExitReason''
                     (exit_reason (last (g # gs)) (clock (length gs)))),
      set_flags p \<noteq> [])"
  unfolding check_shutdown_def set_flags_def
  by (subst check_flags_char) (simp_all add: shutdown_flags_def)

lemma tick_no_raise:
  assumes "ensure_running_raises te = None" and "send_raises te = None"
  shows "tick kt procs ign te sp p =
     (fst (mode_transition kt (started te) sp (apply_puts p (ext_puts te)))
        @ [EnsureRunning (started te) ign, SendManagerState procs]
        @ flags_events (now te) 0 (set_flags (store_at_check kt te sp p)),
      (case set_flags (store_at_check kt te sp p) of
         [] \<Rightarrow> store_at_check kt te sp p
       | g # gs \<Rightarrow> put (store_at_check kt te sp p) ''LastManagerExitReason''
                     (exit_reason (last (g # gs)) (now te (length gs)))),
      if set_flags (store_at_check kt te sp p) \<noteq> [] then Break else Continue)"
  using assms
  by (auto simp: tick_def check_shutdown_char store_at_check_def Let_def
           split: prod.splits list.splits)

lemma set_flags_nonempty:
  "set_flags q \<noteq> [] \<longleftrightarrow> get_bool q ''DoUninstall'' \<or> get_bool q ''DoShutdown'' \<or> get_bool q ''DoReboot''"
  by (simp add: set_flags_def shutdown_flags_def)

lemma mode_transition_no_exit_reason:
  "filter is_exit_reason_put (fst (mode_transition kt st sp p)) = []"
  by (simp add: mode_transition_def)

lemma filter_exit_reason_flags_events:
  "filter is_exit_reason_put (flags_events clock n fs) =
     map (\<lambda>(i, f). Put ''LastManagerExitReason'' (f @ '' '' @ clock i)) (enumerate n fs)"
  by (induction fs arbitrary: n) (simp_all add: flag_events_def exit_reason_def)

text \<open>
  C4: a tick that reaches its flag loop (no exception in \<^verbatim>\<open>ensure_running\<close> or
  \<^verbatim>\<open>pm.send\<close>) reads the three flags from the store as the mode transition left it. If
  one of them reads true, the writes of the tick to \<^verbatim>\<open>LastManagerExitReason\<close> are, in
  this order, one for each flag that reads true: the flag's name, a blank and the
  timestamp that the clock returned when it was read for this flag (the clock is read
  once per such flag, so the \<open>i\<close>-th of them carries \<open>now te i\<close>); the tick ends with
  \<^verbatim>\<open>break\<close> and the loop returns with the events of this tick as its last: no further
  tick begins, whatever ticks \<open>tes\<close> the world had in store. If none reads true, nothing
  is written to \<^verbatim>\<open>LastManagerExitReason\<close> and the loop goes on with the next tick.
\<close>

theorem shutdown_intent_ends_loop:
  assumes "ensure_running_raises te = None" and "send_raises te = None"
    and "tick kt procs ign te sp p = (ev, p', r)"
  shows
    "(if get_bool (store_at_check kt te sp p) ''DoUninstall''
         \<or> get_bool (store_at_check kt te sp p) ''DoShutdown''
         \<or> get_bool (store_at_check kt te sp p) ''DoReboot''
      then r = Break
         \<and> manager_loop kt procs ign (te # tes) sp p = (ev, p', Returned)
         \<and> filter is_exit_reason_put ev =
             map (\<lambda>(i, f). Put ''LastManagerExitReason'' (f @ '' '' @ now te i))
               (enumerate 0 (filter (get_bool (store_at_check kt te sp p))
                               [''DoUninstall'', ''DoShutdown'', ''DoReboot'']))
         \<and> (\<forall>f \<in> set shutdown_flags. get_bool (store_at_check kt te sp p) f \<longrightarrow>
               (\<exists>i < 3. Put ''LastManagerExitReason'' (f @ '' '' @ now te i) \<in> set ev))
      else r = Continue
         \<and> filter is_exit_reason_put ev = []
         \<and> manager_loop kt procs ign (te # tes) sp p =
             (case manager_loop kt procs ign tes (started te) p' of
                (ev', p'', r') \<Rightarrow> (ev @ ev', p'', r')))"
proof -
  let ?q = "store_at_check kt te sp p"
  note t = tick_no_raise [OF assms(1,2), of kt procs ign sp p]
  show ?thesis
  proof (cases "set_flags ?q \<noteq> []")
    case True
    have r: "r = Break" using t assms(3) True by simp
    have ev: "ev = fst (mode_transition kt (started te) sp (apply_puts p (ext_puts te)))
        @ [EnsureRunning (started te) ign, SendManagerState procs]
        @ flags_events (now te) 0 (set_flags ?q)"
      using t assms(3) by simp
    have x: "filter is_exit_reason_put ev =
             map (\<lambda>(i, f). Put ''LastManagerExitReason'' (f @ '' '' @ now te i))
               (enumerate 0 (set_flags ?q))"
      unfolding ev
      by (simp add: mode_transition_no_exit_reason filter_exit_reason_flags_events)
    have w: "\<exists>i < 3. Put ''LastManagerExitReason'' (f @ '' '' @ now te i) \<in> set ev"
      if "f \<in> set shutdown_flags" and "get_bool ?q f" for f
    proof -
      have "f \<in> set (set_flags ?q)" using that by (simp add: set_flags_def)
      then obtain i where i: "i < length (set_flags ?q)" "set_flags ?q ! i = f"
        by (auto simp: in_set_conv_nth)
      have "length (set_flags ?q) \<le> 3"
        by (simp add: set_flags_def shutdown_flags_def)
      then have i3: "i < 3" using i(1) by simp
      have "(i, f) \<in> set (enumerate 0 (set_flags ?q))"
        using i by (simp add: in_set_enumerate_eq)
      then have "Put ''LastManagerExitReason'' (f @ '' '' @ now te i)
                   \<in> set (filter is_exit_reason_put ev)"
        unfolding x by force
      then show ?thesis using i3 by auto
    qed
    have l: "manager_loop kt procs ign (te # tes) sp p = (ev, p', Returned)"
      using assms(3) r by simp
    have x': "filter is_exit_reason_put ev =
             map (\<lambda>(i, f). Put ''LastManagerExitReason'' (f @ '' '' @ now te i))
               (enumerate 0 (filter (get_bool ?q) [''DoUninstall'', ''DoShutdown'', ''DoReboot'']))"
      using x by (simp only: set_flags_def shutdown_flags_def)
    have c: "get_bool ?q ''DoUninstall'' \<or> get_bool ?q ''DoShutdown'' \<or> get_bool ?q ''DoReboot''"
      using True by (simp only: set_flags_nonempty)
    show ?thesis using c r l x' w by (simp only: if_True simp_thms) blast
  next
    case False
    then have e: "set_flags ?q = []" by simp
    have r: "r = Continue" using t assms(3) e by simp
    have ev: "ev = fst (mode_transition kt (started te) sp (apply_puts p (ext_puts te)))
        @ [EnsureRunning (started te) ign, SendManagerState procs]"
      using t assms(3) e by simp
    have n: "filter is_exit_reason_put ev = []"
      unfolding ev by (simp add: mode_transition_no_exit_reason)
    have l: "manager_loop kt procs ign (te # tes) sp p =
             (case manager_loop kt procs ign tes (started te) p' of
                (ev', p'', r') \<Rightarrow> (ev @ ev', p'', r'))"
      using assms(3) r by simp
    have c: "\<not> (get_bool ?q ''DoUninstall'' \<or> get_bool ?q ''DoShutdown'' \<or> get_bool ?q ''DoReboot'')"
      using False by (simp add: set_flags_nonempty)
    show ?thesis using c r n l by simp
  qed
qed

lemmas eval_defs =
  tick_def mode_transition_def check_shutdown_def shutdown_flags_def get_bool_def put_def
  clear_all_def store_at_check_def exit_reason_def no_tags_def Let_def

text \<open>
  The theorem at a run of two ticks in which \<^verbatim>\<open>DoUninstall\<close> and \<^verbatim>\<open>DoReboot\<close> are set
  before the first: the loop returns after the first tick, and the two writes carry the
  two readings of the clock.
\<close>

theorem shutdown_intent_ends_loop_witness:
  "ensure_running_raises uninstall_reboot_tick = None
   \<and> send_raises uninstall_reboot_tick = None
   \<and> get_bool (store_at_check no_tags uninstall_reboot_tick False Map.empty) ''DoUninstall''
   \<and> get_bool (store_at_check no_tags uninstall_reboot_tick False Map.empty) ''DoReboot''
   \<and> snd (snd (tick no_tags [''ui''] [] uninstall_reboot_tick False Map.empty)) = Break
   \<and> snd (snd (manager_loop no_tags [''ui''] [] [uninstall_reboot_tick, reboot_tick] False
                  Map.empty)) = Returned
   \<and> fst (manager_loop no_tags [''ui''] [] [uninstall_reboot_tick, reboot_tick] False Map.empty)
        = fst (tick no_tags [''ui''] [] uninstall_reboot_tick False Map.empty)
   \<and> filter is_exit_reason_put
        (fst (tick no_tags [''ui''] [] uninstall_reboot_tick False Map.empty))
        = [Put ''LastManagerExitReason'' ''DoUninstall 2024-06-14 08:00:00.000123'',
           Put ''LastManagerExitReason'' ''DoReboot 2024-06-14 08:00:00.000456'']"
  using shutdown_intent_ends_loop [of uninstall_reboot_tick no_tags "[''ui'']" "[]" False
      Map.empty
      "fst (tick no_tags [''ui''] [] uninstall_reboot_tick False Map.empty)"
      "fst (snd (tick no_tags [''ui''] [] uninstall_reboot_tick False Map.empty))"
      "snd (snd (tick no_tags [''ui''] [] uninstall_reboot_tick False Map.empty))"
      "[reboot_tick]"]
  by (simp add: eval_defs uninstall_reboot_tick_def two_reads_def)

section \<open>Order of the actions of a tick\<close>

lemma flags_events_no_clear: "filter is_clear (flags_events clock n fs) = []"
  by (induction fs arbitrary: n) (simp_all add: flag_events_def)

lemma flags_events_no_reconcile: "filter is_reconcile (flags_events clock n fs) = []"
  by (induction fs arbitrary: n) (simp_all add: flag_events_def)

lemma flags_events_no_send: "filter is_send (flags_events clock n fs) = []"
  by (induction fs arbitrary: n) (simp_all add: flag_events_def)

lemma mode_transition_no_reconcile:
  "filter is_reconcile (fst (mode_transition kt st sp p)) = []"
  by (simp add: mode_transition_def)

lemma mode_transition_no_send:
  "filter is_send (fst (mode_transition kt st sp p)) = []"
  by (simp add: mode_transition_def)

text \<open>
  C5: the events of a tick split at its one call of \<^verbatim>\<open>ensure_running\<close>. Before it
  there is no \<^verbatim>\<open>managerState\<close> message (and no other reconciliation); after it there is
  no bulk-clear: every clear of the tick precedes the reconciliation, and the health
  message, sent once unless \<^verbatim>\<open>ensure_running\<close> raised, follows it.
\<close>

theorem tick_order:
  "\<exists>pre post.
     tick_events kt procs ign te sp p = pre @ EnsureRunning (started te) ign # post
     \<and> filter is_reconcile pre = [] \<and> filter is_send pre = []
     \<and> filter is_clear post = [] \<and> filter is_reconcile post = []
     \<and> filter is_send post =
         (if ensure_running_raises te = None then [SendManagerState procs] else [])"
proof -
  let ?pre = "fst (mode_transition kt (started te) sp (apply_puts p (ext_puts te)))"
  let ?post = "(case ensure_running_raises te of
                  Some e \<Rightarrow> []
                | None \<Rightarrow> SendManagerState procs #
                    (case send_raises te of
                       Some e \<Rightarrow> []
                     | None \<Rightarrow> fst (check_shutdown (now te) (store_at_check kt te sp p))))"
  have e: "tick_events kt procs ign te sp p = ?pre @ EnsureRunning (started te) ign # ?post"
    by (simp add: tick_events_def tick_def store_at_check_def Let_def
             split: prod.splits option.splits)
  have c: "filter is_clear ?post = []" "filter is_reconcile ?post = []"
    "filter is_send ?post =
       (if ensure_running_raises te = None then [SendManagerState procs] else [])"
    by (simp_all add: check_shutdown_char flags_events_no_clear flags_events_no_reconcile
          flags_events_no_send split: option.splits)
  show ?thesis
    using e c mode_transition_no_reconcile [of kt "started te" sp]
      mode_transition_no_send [of kt "started te" sp]
    by blast
qed

section \<open>The value of the exit reason\<close>

text \<open>
  C10: the flag loop writes \<^verbatim>\<open>LastManagerExitReason\<close> once for each flag that reads
  true, in the order \<^verbatim>\<open>DoUninstall\<close>, \<^verbatim>\<open>DoShutdown\<close>, \<^verbatim>\<open>DoReboot\<close>, each write with the
  flag's name and its own reading of the clock (the \<open>i\<close>-th write carries \<open>clock i\<close>), so
  that the value it leaves names the last such flag, with the last reading; the flags
  themselves are left as they were. With \<^verbatim>\<open>DoShutdown\<close> and \<^verbatim>\<open>DoReboot\<close> set the value
  names \<^verbatim>\<open>DoReboot\<close>, which is also the terminal action on that store; with
  \<^verbatim>\<open>DoUninstall\<close> and \<^verbatim>\<open>DoReboot\<close> set the value names \<^verbatim>\<open>DoReboot\<close> while the terminal
  action on that store is the uninstall.
\<close>

theorem exit_reason_last_flag:
  "filter is_exit_reason_put (fst (check_shutdown clock p)) =
     map (\<lambda>(i, f). Put ''LastManagerExitReason'' (f @ '' '' @ clock i))
       (enumerate 0 (filter (get_bool p) [''DoUninstall'', ''DoShutdown'', ''DoReboot'']))
   \<and> fst (snd (check_shutdown clock p)) ''LastManagerExitReason'' =
       (case filter (get_bool p) [''DoUninstall'', ''DoShutdown'', ''DoReboot''] of
          [] \<Rightarrow> p ''LastManagerExitReason''
        | g # gs \<Rightarrow> Some (last (g # gs) @ '' '' @ clock (length gs)))
   \<and> (get_bool (fst (snd (check_shutdown clock p))) ''DoUninstall'' = get_bool p ''DoUninstall''
      \<and> get_bool (fst (snd (check_shutdown clock p))) ''DoShutdown'' = get_bool p ''DoShutdown''
      \<and> get_bool (fst (snd (check_shutdown clock p))) ''DoReboot'' = get_bool p ''DoReboot'')
   \<and> (fst (snd (check_shutdown clock [''DoShutdown'' \<mapsto> ''1'', ''DoReboot'' \<mapsto> ''1'']))
          ''LastManagerExitReason'' = Some (''DoReboot'' @ '' '' @ clock 1)
      \<and> terminal_action
          (fst (snd (check_shutdown clock [''DoShutdown'' \<mapsto> ''1'', ''DoReboot'' \<mapsto> ''1''])))
          = [Warning ''reboot'', Reboot])
   \<and> (fst (snd (check_shutdown clock [''DoUninstall'' \<mapsto> ''1'', ''DoReboot'' \<mapsto> ''1'']))
          ''LastManagerExitReason'' = Some (''DoReboot'' @ '' '' @ clock 1)
      \<and> terminal_action
          (fst (snd (check_shutdown clock [''DoUninstall'' \<mapsto> ''1'', ''DoReboot'' \<mapsto> ''1''])))
          = [Warning ''uninstalling'', Uninstall])"
proof -
  have a: "filter is_exit_reason_put (fst (check_shutdown clock p)) =
     map (\<lambda>(i, f). Put ''LastManagerExitReason'' (f @ '' '' @ clock i))
       (enumerate 0 (filter (get_bool p) [''DoUninstall'', ''DoShutdown'', ''DoReboot'']))"
    by (simp only: check_shutdown_char fst_conv filter_exit_reason_flags_events
          set_flags_def shutdown_flags_def)
  have b: "fst (snd (check_shutdown clock p)) ''LastManagerExitReason'' =
       (case filter (get_bool p) [''DoUninstall'', ''DoShutdown'', ''DoReboot''] of
          [] \<Rightarrow> p ''LastManagerExitReason''
        | g # gs \<Rightarrow> Some (last (g # gs) @ '' '' @ clock (length gs)))"
    by (simp add: check_shutdown_char set_flags_def shutdown_flags_def exit_reason_def put_def)
  have c: "get_bool (fst (snd (check_shutdown clock p))) f = get_bool p f"
    if "f \<noteq> ''LastManagerExitReason''" for f
    using that
    by (cases "set_flags p") (simp_all add: check_shutdown_char get_bool_def put_def)
  let ?s = "[''DoShutdown'' \<mapsto> ''1'', ''DoReboot'' \<mapsto> ''1'']"
  have d: "fst (snd (check_shutdown clock ?s)) ''LastManagerExitReason''
            = Some (''DoReboot'' @ '' '' @ clock 1)
          \<and> terminal_action (fst (snd (check_shutdown clock ?s))) = [Warning ''reboot'', Reboot]"
    by (simp add: check_shutdown_def shutdown_flags_def get_bool_def put_def exit_reason_def
          terminal_action_def Let_def)
  let ?q = "[''DoUninstall'' \<mapsto> ''1'', ''DoReboot'' \<mapsto> ''1'']"
  have e: "fst (snd (check_shutdown clock ?q)) ''LastManagerExitReason''
            = Some (''DoReboot'' @ '' '' @ clock 1)
          \<and> terminal_action (fst (snd (check_shutdown clock ?q))) = [Warning ''uninstalling'', Uninstall]"
    by (simp add: check_shutdown_def shutdown_flags_def get_bool_def put_def exit_reason_def
          terminal_action_def Let_def)
  show ?thesis
    using a b c [of "''DoUninstall''"] c [of "''DoShutdown''"] c [of "''DoReboot''"] d e
    by blast
qed

section \<open>Default parameters\<close>

lemma set_unset_params_store:
  "snd (set_unset_params tbl p) k = (case p k of Some v \<Rightarrow> Some v | None \<Rightarrow> map_of tbl k)"
proof (induction tbl arbitrary: p)
  case Nil
  then show ?case by (simp split: option.splits)
next
  case (Cons kv tbl)
  obtain k' v' where kv: "kv = (k', v')" by (cases kv)
  show ?case
  proof (cases "p k' = None")
    case True
    let ?q = "put p k' v'"
    have ih: "snd (set_unset_params tbl ?q) k =
                (case ?q k of Some v \<Rightarrow> Some v | None \<Rightarrow> map_of tbl k)"
      by (rule Cons.IH)
    have qk: "?q k = (if k = k' then Some v' else p k)"
      by (simp add: put_def)
    have step: "snd (set_unset_params (kv # tbl) p) = snd (set_unset_params tbl ?q)"
      using True by (simp add: kv split: prod.splits)
    show ?thesis
      unfolding step ih qk using True by (auto simp: kv split: option.splits)
  next
    case False
    then show ?thesis
      using Cons.IH [of p] by (auto simp: kv split: option.splits)
  qed
qed

lemma set_unset_params_puts:
  "Put k v \<in> set (fst (set_unset_params tbl p)) \<longleftrightarrow> p k = None \<and> map_of tbl k = Some v"
proof (induction tbl arbitrary: p)
  case Nil
  then show ?case by simp
next
  case (Cons kv tbl)
  obtain k' v' where kv: "kv = (k', v')" by (cases kv)
  show ?case
  proof (cases "p k' = None")
    case True
    let ?q = "put p k' v'"
    have ih: "Put k v \<in> set (fst (set_unset_params tbl ?q))
                \<longleftrightarrow> ?q k = None \<and> map_of tbl k = Some v"
      by (rule Cons.IH)
    have qk: "?q k = (if k = k' then Some v' else p k)"
      by (simp add: put_def)
    have step: "fst (set_unset_params (kv # tbl) p) = Put k' v' # fst (set_unset_params tbl ?q)"
      using True by (simp add: kv split: prod.splits)
    show ?thesis
      unfolding step using ih qk True by (auto simp: kv)
  next
    case False
    then show ?thesis
      using Cons.IH [of p] by (auto simp: kv)
  qed
qed

text \<open>
  C9: the loop that sets the unset parameters (lines 183 to 186) never overwrites: after
  it, a key that held a value holds the same value, and a key that was absent holds the
  default of its first entry in the table (or stays absent when the table has no entry
  for it). The values it writes are exactly those defaults of absent keys.
\<close>

theorem defaults_keep_existing:
  "snd (set_unset_params tbl p) k = (case p k of Some v \<Rightarrow> Some v | None \<Rightarrow> map_of tbl k)
   \<and> (Put k v \<in> set (fst (set_unset_params tbl p)) \<longleftrightarrow> p k = None \<and> map_of tbl k = Some v)"
  using set_unset_params_store set_unset_params_puts by blast

section \<open>Pre-warming the processes\<close>

lemma prepare_all_char:
  "prepare_all pr ns =
     (map Prepare (takeWhile (\<lambda>n. pr n = None) ns @ take 1 (dropWhile (\<lambda>n. pr n = None) ns)),
      (case dropWhile (\<lambda>n. pr n = None) ns of [] \<Rightarrow> None | n # rest \<Rightarrow> pr n))"
  by (induction ns) (auto split: option.splits prod.splits)

lemma set_unset_params_only_puts:
  "set_unset_params tbl p = (ev, q) \<Longrightarrow> e \<in> set ev \<Longrightarrow> \<exists>k v. e = Put k v"
  by (induction tbl p arbitrary: ev q rule: set_unset_params.induct)
     (auto split: prod.splits if_splits)

lemma put_all_only_puts:
  "put_all kvs p = (ev, q) \<Longrightarrow> e \<in> set ev \<Longrightarrow> \<exists>k v. e = Put k v"
  by (induction kvs p arbitrary: ev q rule: put_all.induct) (auto split: prod.splits)

lemma init_store_events:
  "init_store kt ie p = (ev, q) \<Longrightarrow> e \<in> set ev
     \<Longrightarrow> (\<exists>k v. e = Put k v) \<or> (\<exists>t. e = ClearAll t)"
  by (auto simp: init_store_def Let_def split: prod.splits if_splits
           dest: set_unset_params_only_puts)

lemma events_before_prepare_kinds:
  assumes "e \<in> set (events_before_prepare kt ie p)"
  shows "(\<exists>k v. e = Put k v) \<or> (\<exists>t. e = ClearAll t) \<or> e = Register"
proof -
  obtain ev1 p1 where i: "init_store kt ie p = (ev1, p1)"
    by (cases "init_store kt ie p")
  obtain ev3 p3 where v: "put_all (version_params ie) (legacy_migration ie p1) = (ev3, p3)"
    by (cases "put_all (version_params ie) (legacy_migration ie p1)")
  from assms have "e \<in> set ev1 \<or> e \<in> set ev3 \<or> e = Register"
    by (auto simp: events_before_prepare_def i v)
  then show ?thesis
    using init_store_events [OF i] put_all_only_puts [OF v] by blast
qed

lemma filter_none: "(\<And>e. e \<in> set xs \<Longrightarrow> \<not> P e) \<Longrightarrow> filter P xs = []"
  by (induction xs) auto

lemma events_before_prepare_no_prepare:
  "filter is_prepare (events_before_prepare kt ie p) = []"
  by (rule filter_none) (auto dest: events_before_prepare_kinds)

lemma manager_init_registered:
  assumes "register_result ie = Some d" and "d \<noteq> []"
  shows "manager_init kt procs ie p =
           (events_before_prepare kt ie p @ fst (prepare_all (prepare_raises ie) procs)
              @ (if snd (prepare_all (prepare_raises ie) procs) = None then [SetModel] else []),
            store_after_init kt ie p,
            snd (prepare_all (prepare_raises ie) procs))"
  using assms
  by (auto simp: manager_init_def events_before_prepare_def store_after_init_def Let_def
           split: prod.splits option.splits)

lemma filter_prepare_map: "filter is_prepare (map Prepare ns) = map Prepare ns"
  by (induction ns) auto

text \<open>
  C1, as the code has it: once registration has succeeded, \<^verbatim>\<open>manager_init\<close> calls
  \<^verbatim>\<open>prepare()\<close> on the registered processes in registry order, up to and including the
  first one whose \<^verbatim>\<open>prepare()\<close> raises. When none raises, every process is pre-warmed
  once and \<^verbatim>\<open>manager_init\<close> completes. A \<^verbatim>\<open>prepare()\<close> that raises is not caught: it ends
  \<^verbatim>\<open>manager_init\<close> with that exception, and the processes after it are not pre-warmed.
\<close>

theorem prepare_not_guarded:
  assumes "register_result ie = Some d" and "d \<noteq> []"
  shows "filter is_prepare (fst (manager_init kt procs ie p)) =
           map Prepare (takeWhile (\<lambda>n. prepare_raises ie n = None) procs
                          @ take 1 (dropWhile (\<lambda>n. prepare_raises ie n = None) procs))
         \<and> snd (snd (manager_init kt procs ie p)) =
             (case dropWhile (\<lambda>n. prepare_raises ie n = None) procs of
                [] \<Rightarrow> None
              | n # rest \<Rightarrow> prepare_raises ie n)"
  unfolding manager_init_registered [OF assms] prepare_all_char
  by (simp add: events_before_prepare_no_prepare filter_prepare_map del: map_append)


text \<open>The theorem at an initialisation of two processes, neither of which fails.\<close>

theorem prepare_not_guarded_witness:
  "register_result good_init = Some ''d0ng1e'' \<and> ''d0ng1e'' \<noteq> []
   \<and> filter is_prepare (fst (manager_init no_tags [''camerad'', ''ui''] good_init Map.empty))
       = [Prepare ''camerad'', Prepare ''ui'']
   \<and> snd (snd (manager_init no_tags [''camerad'', ''ui''] good_init Map.empty)) = None"
  using prepare_not_guarded [of good_init "''d0ng1e''" no_tags "[''camerad'', ''ui'']" Map.empty]
  by (simp add: good_init_def)

text \<open>
  C1 as stated fails: with \<^verbatim>\<open>camerad\<close>, \<^verbatim>\<open>ui\<close> and \<^verbatim>\<open>pandad\<close> registered and a
  \<^verbatim>\<open>prepare()\<close> of \<^verbatim>\<open>ui\<close> that raises, \<^verbatim>\<open>manager_init\<close> ends with that exception and
  \<^verbatim>\<open>pandad\<close> is never pre-warmed.
\<close>

theorem prepare_failure_aborts_init:
  "prepare_raises failing_init ''ui'' = Some (Exception ''ImportError'')
   \<and> snd (snd (manager_init no_tags [''camerad'', ''ui'', ''pandad''] failing_init Map.empty))
       = Some (Exception ''ImportError'')
   \<and> filter is_prepare
        (fst (manager_init no_tags [''camerad'', ''ui'', ''pandad''] failing_init Map.empty))
       = [Prepare ''camerad'', Prepare ''ui'']"
proof -
  have r: "register_result failing_init = Some ''d0ng1e''" "''d0ng1e'' \<noteq> []"
    by (simp_all add: failing_init_def good_init_def)
  show ?thesis
    unfolding manager_init_registered [OF r]
    by (simp add: events_before_prepare_no_prepare failing_init_def good_init_def)
qed

section \<open>What the loop never does\<close>

lemma check_flags_kinds:
  "check_flags clock n fs p sd = (ev, q, sd') \<Longrightarrow> e \<in> set ev
     \<Longrightarrow> \<not> is_cleanup e \<and> \<not> is_host_action e"
  by (induction fs arbitrary: n p sd ev q sd')
     (auto simp: Let_def split: prod.splits if_splits)

lemma tick_kinds:
  "tick kt procs ign te sp p = (ev, q, r) \<Longrightarrow> e \<in> set ev
     \<Longrightarrow> \<not> is_cleanup e \<and> \<not> is_host_action e"
  by (auto simp: tick_def mode_transition_def check_shutdown_def Let_def
           split: prod.splits option.splits if_splits dest: check_flags_kinds)

lemma manager_loop_kinds:
  "manager_loop kt procs ign tes sp p = (ev, q, r) \<Longrightarrow> e \<in> set ev
     \<Longrightarrow> \<not> is_cleanup e \<and> \<not> is_host_action e"
proof (induction tes arbitrary: sp p ev q r)
  case Nil
  then show ?case by simp
next
  case (Cons te tes)
  obtain ev1 p1 r1 where t: "tick kt procs ign te sp p = (ev1, p1, r1)"
    by (cases "tick kt procs ign te sp p")
  show ?case
  proof (cases r1)
    case Continue
    obtain ev2 p2 r2 where l: "manager_loop kt procs ign tes (started te) p1 = (ev2, p2, r2)"
      by (cases "manager_loop kt procs ign tes (started te) p1")
    have "ev = ev1 @ ev2" using Cons.prems(1) t Continue l by simp
    then show ?thesis
      using Cons.prems(2) tick_kinds [OF t] Cons.IH [OF l] by auto
  next
    case Break
    then have "ev = ev1" using Cons.prems(1) t by simp
    then show ?thesis using Cons.prems(2) tick_kinds [OF t] by auto
  next
    case (TickRaised x)
    then have "ev = ev1" using Cons.prems(1) t by simp
    then show ?thesis using Cons.prems(2) tick_kinds [OF t] by auto
  qed
qed

lemma manager_thread_kinds:
  assumes "manager_thread kt procs unreg env tes p = (ev, q, r)" and "e \<in> set ev"
  shows "\<not> is_cleanup e \<and> \<not> is_host_action e"
proof -
  obtain ev1 p1 r1 where
    l: "manager_loop kt procs (ignore_list unreg env p) tes False p = (ev1, p1, r1)"
    by (cases "manager_loop kt procs (ignore_list unreg env p) tes False p")
  have "ev = [Info ''manager start'', WriteOnroadParams False,
              EnsureRunning False (ignore_list unreg env p)] @ ev1"
    using assms(1) l by (simp add: manager_thread_def)
  then show ?thesis
    using assms(2) manager_loop_kinds [OF l] by auto
qed

section \<open>Cleanup\<close>

lemma prepare_all_kinds:
  "prepare_all pr ns = (ev, r) \<Longrightarrow> e \<in> set ev \<Longrightarrow> \<exists>n. e = Prepare n"
  by (induction ns arbitrary: ev r) (auto split: option.splits prod.splits)

lemma manager_init_kinds:
  assumes "manager_init kt procs ie p = (ev, q, r)" and "e \<in> set ev"
  shows "\<not> is_cleanup e \<and> \<not> is_host_action e"
proof -
  obtain ev1 p1 where i: "init_store kt ie p = (ev1, p1)"
    by (cases "init_store kt ie p")
  obtain ev3 p3 where v: "put_all (version_params ie) (legacy_migration ie p1) = (ev3, p3)"
    by (cases "put_all (version_params ie) (legacy_migration ie p1)")
  obtain ev4 r4 where pa: "prepare_all (prepare_raises ie) procs = (ev4, r4)"
    by (cases "prepare_all (prepare_raises ie) procs")
  from assms have "e \<in> set ev1 \<or> e \<in> set ev3 \<or> e = Register \<or> e \<in> set ev4 \<or> e = SetModel"
    by (auto simp: manager_init_def i v pa Let_def split: if_splits option.splits)
  then show ?thesis
    using init_store_events [OF i, of e] put_all_only_puts [OF v, of e]
      prepare_all_kinds [OF pa, of e]
    by auto
qed

text \<open>
  \<^verbatim>\<open>main\<close> once \<^verbatim>\<open>manager_init\<close> has completed and \<^verbatim>\<open>PREPAREONLY\<close> is not set, by the
  way \<^verbatim>\<open>manager_thread\<close> ends.
\<close>

lemma main_started:
  assumes "manager_init kt procs (init me) p = (ev0, p0, None)"
    and "PREPAREONLY (os me) = None"
    and "manager_thread kt procs unreg (os me) (ticks me) p0 = (ev2, p2, r)"
  shows "main kt procs unreg me p =
     (case r of
        Pending \<Rightarrow> (ev0 @ (if prebuilt_exists me then [RemovePrebuilt] else []) @ ev2, p2, Running)
      | Returned \<Rightarrow>
          (ev0 @ (if prebuilt_exists me then [RemovePrebuilt] else []) @ ev2
             @ manager_cleanup procs @ terminal_action (apply_puts p2 (cleanup_puts me)),
           apply_puts p2 (cleanup_puts me), Exited)
      | Raised (Exception m) \<Rightarrow>
          (ev0 @ (if prebuilt_exists me then [RemovePrebuilt] else []) @ ev2
             @ [CaptureException] @ manager_cleanup procs
             @ terminal_action (apply_puts p2 (cleanup_puts me)),
           apply_puts p2 (cleanup_puts me), Exited)
      | Raised (SystemExit c) \<Rightarrow>
          (ev0 @ (if prebuilt_exists me then [RemovePrebuilt] else []) @ ev2
             @ manager_cleanup procs,
           apply_puts p2 (cleanup_puts me), Propagated (SystemExit c)))"
  using assms by (simp add: main_def Let_def split: thread_result.splits exn.splits)

lemma before_cleanup_kinds:
  assumes "manager_init kt procs (init me) p = (ev0, p0, None)"
    and "manager_thread kt procs unreg (os me) (ticks me) p0 = (ev2, p2, r)"
  shows "filter is_cleanup (ev0 @ (if prebuilt_exists me then [RemovePrebuilt] else []) @ ev2) = []"
    and "filter is_host_action (ev0 @ (if prebuilt_exists me then [RemovePrebuilt] else []) @ ev2) = []"
  using manager_init_kinds [OF assms(1)] manager_thread_kinds [OF assms(2)]
  by (auto intro!: filter_none)

lemma filter_cleanup_manager_cleanup:
  "filter is_cleanup (manager_cleanup procs) = manager_cleanup procs"
  by (induction procs) (auto simp: manager_cleanup_def)

lemma filter_host_manager_cleanup:
  "filter is_host_action (manager_cleanup procs) = []"
  by (auto simp: manager_cleanup_def intro!: filter_none)

lemma filter_cleanup_terminal_action:
  "filter is_cleanup (terminal_action q) = []"
  by (simp add: terminal_action_def)

lemma filter_host_terminal_action:
  "filter is_host_action (terminal_action q) =
     (if get_bool q ''DoUninstall'' then [Uninstall]
      else if get_bool q ''DoReboot'' then [Reboot]
      else if get_bool q ''DoShutdown'' then [Shutdown]
      else [])"
  by (simp add: terminal_action_def)

text \<open>
  C2, as the code has it: in every execution of \<^verbatim>\<open>main\<close> in which \<^verbatim>\<open>manager_init\<close>
  completes, \<^verbatim>\<open>PREPAREONLY\<close> is not set in the environment and \<^verbatim>\<open>main\<close> ends (it
  returns or an exception leaves it; the supervisor loop may have returned or have been
  ended by an exception or by \<^verbatim>\<open>SystemExit\<close>), the cleanup events of the whole run are
  those of one run of \<^verbatim>\<open>manager_cleanup\<close>: a non-blocking stop of every registered process
  in registry order, then a blocking stop of every registered process, then the log line
  that closes the cleanup.
\<close>

theorem cleanup_exactly_once:
  assumes "snd (snd (manager_init kt procs (init me) p)) = None"
    and "PREPAREONLY (os me) = None"
    and "snd (snd (main kt procs unreg me p)) \<noteq> Running"
  shows "filter is_cleanup (fst (main kt procs unreg me p)) =
           map (\<lambda>n. Stop n False) procs @ map (\<lambda>n. Stop n True) procs
             @ [Info ''everything is dead'']"
proof -
  obtain ev0 p0 where i: "manager_init kt procs (init me) p = (ev0, p0, None)"
    using assms(1) by (cases "manager_init kt procs (init me) p") auto
  obtain ev2 p2 r where t: "manager_thread kt procs unreg (os me) (ticks me) p0 = (ev2, p2, r)"
    by (cases "manager_thread kt procs unreg (os me) (ticks me) p0")
  note m = main_started [OF i assms(2) t]
  note k = before_cleanup_kinds [OF i t]
  have c: "filter is_cleanup (manager_cleanup procs) =
             map (\<lambda>n. Stop n False) procs @ map (\<lambda>n. Stop n True) procs
               @ [Info ''everything is dead'']"
    unfolding filter_cleanup_manager_cleanup by (simp add: manager_cleanup_def)
  show ?thesis
  proof (cases r)
    case Returned
    then show ?thesis
      using k(1) c by (simp add: m filter_cleanup_terminal_action)
  next
    case (Raised e)
    then show ?thesis
      using k(1) c by (cases e) (simp_all add: m filter_cleanup_terminal_action)
  next
    case Pending
    then show ?thesis using assms(3) by (simp add: m)
  qed
qed

lemmas run_defs =
  main_def manager_init_def init_store_def version_params_def bool_str_def
  manager_thread_def ignore_list_def manager_cleanup_def terminal_action_def
  tick_def mode_transition_def check_shutdown_def shutdown_flags_def get_bool_def put_def
  put_bool_def clear_all_def exit_reason_def no_tags_def Let_def
  good_init_def plain_os_def two_reads_def

text \<open>
  The theorem at a run with the processes \<^verbatim>\<open>camerad\<close> and \<^verbatim>\<open>ui\<close> whose first tick ends
  with an exception in \<^verbatim>\<open>ensure_running\<close>: the exception is caught and reported, and the
  cleanup runs once.
\<close>

theorem cleanup_exactly_once_witness:
  "snd (snd (manager_init no_tags [''camerad'', ''ui''] (init crash_run) Map.empty)) = None
   \<and> PREPAREONLY (os crash_run) = None
   \<and> snd (snd (main no_tags [''camerad'', ''ui''] ''UnregisteredDevice'' crash_run Map.empty))
        = Exited
   \<and> CaptureException
        \<in> set (fst (main no_tags [''camerad'', ''ui''] ''UnregisteredDevice'' crash_run Map.empty))
   \<and> filter is_cleanup
        (fst (main no_tags [''camerad'', ''ui''] ''UnregisteredDevice'' crash_run Map.empty))
        = [Stop ''camerad'' False, Stop ''ui'' False, Stop ''camerad'' True, Stop ''ui'' True,
           Info ''everything is dead'']"
  using cleanup_exactly_once [where kt = no_tags and procs = "[''camerad'', ''ui'']"
      and me = crash_run and p = Map.empty and unreg = "''UnregisteredDevice''"]
  by (simp add: run_defs crash_run_def crash_tick_def)

text \<open>
  C2 as stated fails: with \<^verbatim>\<open>PREPAREONLY\<close> set in the environment, \<^verbatim>\<open>manager_init\<close>
  completes and \<^verbatim>\<open>main\<close> returns at line 347, before the \<^verbatim>\<open>try\<close> statement: no stop is
  issued to any process.
\<close>

theorem prepare_only_skips_cleanup:
  "snd (snd (manager_init no_tags [''camerad'', ''ui''] (init prepare_only_run) Map.empty)) = None
   \<and> snd (snd (main no_tags [''camerad'', ''ui''] ''UnregisteredDevice'' prepare_only_run
                  Map.empty)) = Exited
   \<and> filter is_cleanup
        (fst (main no_tags [''camerad'', ''ui''] ''UnregisteredDevice'' prepare_only_run
                Map.empty)) = []"
  by (simp add: run_defs prepare_only_run_def)

section \<open>The terminal action\<close>

text \<open>
  C8, as the code has it: in an execution of \<^verbatim>\<open>main\<close> in which \<^verbatim>\<open>manager_init\<close>
  completes and \<^verbatim>\<open>PREPAREONLY\<close> is not set,
  \<^item> if \<^verbatim>\<open>main\<close> returns (the supervisor loop has returned or has ended with an
    exception of class \<^verbatim>\<open>Exception\<close>), its events end with those of \<^verbatim>\<open>manager_cleanup\<close>
    followed by the terminal action on the store as it is after the cleanup, no host
    action comes before, and the host actions of the whole run are: the uninstall if
    \<^verbatim>\<open>DoUninstall\<close> reads true, otherwise the reboot if \<^verbatim>\<open>DoReboot\<close> reads true,
    otherwise the shutdown if \<^verbatim>\<open>DoShutdown\<close> reads true, otherwise none;
  \<^item> if an exception leaves \<^verbatim>\<open>main\<close>, it is a \<^verbatim>\<open>SystemExit\<close> (the SIGTERM handler's),
    the events end with those of \<^verbatim>\<open>manager_cleanup\<close>, and no host action is performed,
    whatever the flags;
  \<^item> while the loop has not ended, there is no cleanup and no host action.
\<close>

theorem terminal_action_dispatch:
  assumes "snd (snd (manager_init kt procs (init me) p)) = None"
    and "PREPAREONLY (os me) = None"
  shows
    "(case snd (snd (main kt procs unreg me p)) of
        Exited \<Rightarrow>
          (\<exists>pre. fst (main kt procs unreg me p) =
                    pre @ manager_cleanup procs
                      @ terminal_action (fst (snd (main kt procs unreg me p)))
                  \<and> filter is_host_action pre = [])
          \<and> filter is_host_action (fst (main kt procs unreg me p)) =
              (if get_bool (fst (snd (main kt procs unreg me p))) ''DoUninstall'' then [Uninstall]
               else if get_bool (fst (snd (main kt procs unreg me p))) ''DoReboot'' then [Reboot]
               else if get_bool (fst (snd (main kt procs unreg me p))) ''DoShutdown''
                 then [Shutdown]
               else [])
      | Propagated e \<Rightarrow>
          (\<exists>c. e = SystemExit c)
          \<and> (\<exists>pre. fst (main kt procs unreg me p) = pre @ manager_cleanup procs)
          \<and> filter is_host_action (fst (main kt procs unreg me p)) = []
      | Running \<Rightarrow>
          filter is_cleanup (fst (main kt procs unreg me p)) = []
          \<and> filter is_host_action (fst (main kt procs unreg me p)) = [])"
proof -
  obtain ev0 p0 where i: "manager_init kt procs (init me) p = (ev0, p0, None)"
    using assms(1) by (cases "manager_init kt procs (init me) p") auto
  obtain ev2 p2 r where t: "manager_thread kt procs unreg (os me) (ticks me) p0 = (ev2, p2, r)"
    by (cases "manager_thread kt procs unreg (os me) (ticks me) p0")
  note m = main_started [OF i assms(2) t]
  note k = before_cleanup_kinds [OF i t]
  let ?pre = "ev0 @ (if prebuilt_exists me then [RemovePrebuilt] else []) @ ev2"
  let ?q = "apply_puts p2 (cleanup_puts me)"
  show ?thesis
  proof (cases r)
    case Returned
    have m': "main kt procs unreg me p =
                (?pre @ manager_cleanup procs @ terminal_action ?q, ?q, Exited)"
      using Returned by (simp add: m)
    have "\<exists>pre. ?pre @ manager_cleanup procs @ terminal_action ?q =
                   pre @ manager_cleanup procs @ terminal_action ?q
                 \<and> filter is_host_action pre = []"
      using k(2) by blast
    then show ?thesis
      using k(2)
      by (simp add: m' filter_host_manager_cleanup filter_host_terminal_action)
  next
    case (Raised e)
    show ?thesis
    proof (cases e)
      case (Exception msg)
      have m': "main kt procs unreg me p =
                  ((?pre @ [CaptureException]) @ manager_cleanup procs @ terminal_action ?q,
                   ?q, Exited)"
        using Raised Exception by (simp add: m)
      have h: "filter is_host_action (?pre @ [CaptureException]) = []"
        using k(2) by simp
      have "\<exists>pre. (?pre @ [CaptureException]) @ manager_cleanup procs @ terminal_action ?q =
                     pre @ manager_cleanup procs @ terminal_action ?q
                   \<and> filter is_host_action pre = []"
        using h by blast
      then show ?thesis
        using h
        by (simp add: m' filter_host_manager_cleanup filter_host_terminal_action)
    next
      case (SystemExit c)
      have m': "main kt procs unreg me p =
                  (?pre @ manager_cleanup procs, ?q, Propagated (SystemExit c))"
        using Raised SystemExit by (simp add: m)
      have "\<exists>pre. ?pre @ manager_cleanup procs = pre @ manager_cleanup procs"
        by blast
      then show ?thesis
        using k(2) by (simp add: m' filter_host_manager_cleanup)
    qed
  next
    case Pending
    then show ?thesis using k by (simp add: m)
  qed
qed

text \<open>
  The theorem at a run in which \<^verbatim>\<open>DoReboot\<close> is set before the first tick: the loop
  returns, the cleanup runs and the host is rebooted.
\<close>

theorem terminal_action_dispatch_witness:
  "snd (snd (manager_init no_tags [''camerad'', ''ui''] (init reboot_run) Map.empty)) = None
   \<and> PREPAREONLY (os reboot_run) = None
   \<and> snd (snd (main no_tags [''camerad'', ''ui''] ''UnregisteredDevice'' reboot_run Map.empty))
        = Exited
   \<and> get_bool (fst (snd (main no_tags [''camerad'', ''ui''] ''UnregisteredDevice'' reboot_run
                            Map.empty))) ''DoReboot''
   \<and> filter is_host_action
        (fst (main no_tags [''camerad'', ''ui''] ''UnregisteredDevice'' reboot_run Map.empty))
        = [Reboot]"
  using terminal_action_dispatch [where kt = no_tags and procs = "[''camerad'', ''ui'']"
      and me = reboot_run and p = Map.empty and unreg = "''UnregisteredDevice''"]
  by (simp add: run_defs reboot_run_def reboot_tick_def)

text \<open>
  C8 as stated fails: in a run in which \<^verbatim>\<open>DoReboot\<close> is set and the SIGTERM handler's
  \<^verbatim>\<open>SystemExit\<close> surfaces in \<^verbatim>\<open>ensure_running\<close>, the cleanup runs (the \<^verbatim>\<open>finally\<close>
  clause), \<^verbatim>\<open>DoReboot\<close> reads true afterwards, and \<^verbatim>\<open>main\<close> is left by the
  \<^verbatim>\<open>SystemExit\<close>: lines 364 to 373 are not reached and the host is not rebooted.
\<close>

theorem sigterm_skips_terminal_action:
  "snd (snd (manager_init no_tags [''camerad'', ''ui''] (init sigterm_run) Map.empty)) = None
   \<and> PREPAREONLY (os sigterm_run) = None
   \<and> snd (snd (main no_tags [''camerad'', ''ui''] ''UnregisteredDevice'' sigterm_run Map.empty))
        = Propagated (SystemExit 1)
   \<and> filter is_cleanup
        (fst (main no_tags [''camerad'', ''ui''] ''UnregisteredDevice'' sigterm_run Map.empty))
        = [Stop ''camerad'' False, Stop ''ui'' False, Stop ''camerad'' True, Stop ''ui'' True,
           Info ''everything is dead'']
   \<and> get_bool (fst (snd (main no_tags [''camerad'', ''ui''] ''UnregisteredDevice'' sigterm_run
                            Map.empty))) ''DoReboot''
   \<and> filter is_host_action
        (fst (main no_tags [''camerad'', ''ui''] ''UnregisteredDevice'' sigterm_run Map.empty))
        = []"
  by (simp add: run_defs sigterm_run_def sigterm_tick_def)

section \<open>Desired state\<close>

lemma tick_events_split:
  "fst (tick kt procs ign te sp p) =
     fst (mode_transition kt (started te) sp (apply_puts p (ext_puts te)))
       @ EnsureRunning (started te) ign
         # (case ensure_running_raises te of
              Some e \<Rightarrow> []
            | None \<Rightarrow> SendManagerState procs #
                (case send_raises te of
                   Some e \<Rightarrow> []
                 | None \<Rightarrow> fst (check_shutdown (now te) (store_at_check kt te sp p))))"
  by (simp add: tick_def store_at_check_def Let_def split: prod.splits option.splits)

lemma tick_reconciles:
  "filter is_reconcile (fst (tick kt procs ign te sp p)) = [EnsureRunning (started te) ign]"
  by (simp add: tick_events_split mode_transition_no_reconcile check_shutdown_char
        flags_events_no_reconcile split: option.splits)

lemma manager_loop_reconciles:
  "\<exists>k \<le> length tes.
     filter is_reconcile (fst (manager_loop kt procs ign tes sp p)) =
       map (\<lambda>te. EnsureRunning (started te) ign) (take k tes)"
proof (induction tes arbitrary: sp p)
  case Nil
  then show ?case by simp
next
  case (Cons te tes)
  obtain ev1 p1 r1 where t: "tick kt procs ign te sp p = (ev1, p1, r1)"
    by (cases "tick kt procs ign te sp p")
  have e1: "filter is_reconcile ev1 = [EnsureRunning (started te) ign]"
    using tick_reconciles [of kt procs ign te sp p] t by simp
  show ?case
  proof (cases r1)
    case Continue
    obtain k where k: "k \<le> length tes"
      "filter is_reconcile (fst (manager_loop kt procs ign tes (started te) p1)) =
         map (\<lambda>te. EnsureRunning (started te) ign) (take k tes)"
      using Cons.IH [of "started te" p1] by blast
    obtain ev2 p2 r2 where l: "manager_loop kt procs ign tes (started te) p1 = (ev2, p2, r2)"
      by (cases "manager_loop kt procs ign tes (started te) p1")
    have "filter is_reconcile (fst (manager_loop kt procs ign (te # tes) sp p)) =
            map (\<lambda>te. EnsureRunning (started te) ign) (take (Suc k) (te # tes))"
      using t Continue e1 k(2) l by simp
    moreover have "Suc k \<le> length (te # tes)" using k(1) by simp
    ultimately show ?thesis by blast
  next
    case Break
    have "filter is_reconcile (fst (manager_loop kt procs ign (te # tes) sp p)) =
            map (\<lambda>te. EnsureRunning (started te) ign) (take (Suc 0) (te # tes))"
      using t Break e1 by simp
    moreover have "Suc 0 \<le> length (te # tes)" by simp
    ultimately show ?thesis by blast
  next
    case (TickRaised x)
    have "filter is_reconcile (fst (manager_loop kt procs ign (te # tes) sp p)) =
            map (\<lambda>te. EnsureRunning (started te) ign) (take (Suc 0) (te # tes))"
      using t TickRaised e1 by simp
    moreover have "Suc 0 \<le> length (te # tes)" by simp
    ultimately show ?thesis by blast
  qed
qed

lemma manager_thread_reconciles:
  "\<exists>k \<le> length tes.
     filter is_reconcile (fst (manager_thread kt procs unreg env tes p)) =
       map (\<lambda>s. EnsureRunning s (ignore_list unreg env p)) (False # map started (take k tes))"
proof -
  obtain k where k: "k \<le> length tes"
    "filter is_reconcile (fst (manager_loop kt procs (ignore_list unreg env p) tes False p)) =
       map (\<lambda>te. EnsureRunning (started te) (ignore_list unreg env p)) (take k tes)"
    using manager_loop_reconciles [of tes kt procs "ignore_list unreg env p" False p] by blast
  obtain ev1 p1 r1 where
    l: "manager_loop kt procs (ignore_list unreg env p) tes False p = (ev1, p1, r1)"
    by (cases "manager_loop kt procs (ignore_list unreg env p) tes False p")
  have "filter is_reconcile (fst (manager_thread kt procs unreg env tes p)) =
       map (\<lambda>s. EnsureRunning s (ignore_list unreg env p)) (False # map started (take k tes))"
    using k(2) l by (simp add: manager_thread_def Let_def comp_def)
  then show ?thesis using k(1) by blast
qed

text \<open>
  C6: for a process \<open>d\<close> of the registry and a tick \<open>te\<close> of the loop, with \<open>ign\<close> the
  ignore list: if the run condition of \<open>d\<close> is \<^verbatim>\<open>ALWAYS\<close>, its desired state is running
  iff its name is not in the ignore list; if it is \<^verbatim>\<open>ONROAD_ONLY\<close>, its desired state
  is running iff \<^verbatim>\<open>started\<close> is true and its name is not in the ignore list; a process
  in the ignore list has desired state stopped, whatever the mode. The mode and the
  ignore list are those that \<^verbatim>\<open>manager.py\<close> hands to the Reconciler: the one call of
  \<^verbatim>\<open>ensure_running\<close> in a tick carries the value of \<^verbatim>\<open>started\<close> of that tick, and all the
  calls of \<^verbatim>\<open>manager_thread\<close>, the one before the loop (with \<^verbatim>\<open>False\<close>) and one in each
  tick that is run, carry the one ignore list that lines 289 to 294 build.
\<close>

theorem desired_state_cases:
  "(run_condition d = ALWAYS \<longrightarrow>
      desired_state d (started te) ign = (name d \<notin> set ign))
   \<and> (run_condition d = ONROAD_ONLY \<longrightarrow>
      desired_state d (started te) ign = (started te \<and> name d \<notin> set ign))
   \<and> (name d \<in> set ign \<longrightarrow> \<not> desired_state d (started te) ign)
   \<and> filter is_reconcile (fst (tick kt procs ign te sp p)) = [EnsureRunning (started te) ign]
   \<and> (\<exists>k \<le> length tes.
        filter is_reconcile (fst (manager_thread kt procs unreg env tes p)) =
          map (\<lambda>s. EnsureRunning s (ignore_list unreg env p))
            (False # map started (take k tes)))"
proof -
  have a: "run_condition d = ALWAYS \<longrightarrow>
      desired_state d (started te) ign = (name d \<notin> set ign)"
    by (simp add: desired_state_def)
  have b: "run_condition d = ONROAD_ONLY \<longrightarrow>
      desired_state d (started te) ign = (started te \<and> name d \<notin> set ign)"
    by (simp add: desired_state_def)
  have c: "name d \<in> set ign \<longrightarrow> \<not> desired_state d (started te) ign"
    by (simp add: desired_state_def split: run_condition.splits)
  show ?thesis
    using a b c tick_reconciles [of kt procs ign te sp p]
      manager_thread_reconciles [of tes kt procs unreg env p]
    by blast
qed

text \<open>
  The theorem at the scenarios of the spec: \<^verbatim>\<open>A\<close> is \<^verbatim>\<open>ALWAYS\<close> and \<^verbatim>\<open>B\<close> is
  \<^verbatim>\<open>ONROAD_ONLY\<close>. In an onroad tick with the ignore list \<^verbatim>\<open>["B"]\<close>, \<^verbatim>\<open>A\<close> is to run and
  \<^verbatim>\<open>B\<close> is not; with an empty ignore list \<^verbatim>\<open>B\<close> is to run in an onroad tick and not in
  an offroad tick.
\<close>

theorem desired_state_cases_witness:
  "run_condition proc_A = ALWAYS \<and> name proc_A \<notin> set [''B'']
   \<and> desired_state proc_A (started reboot_tick) [''B'']
   \<and> run_condition proc_B = ONROAD_ONLY \<and> name proc_B \<in> set [''B'']
   \<and> started reboot_tick
   \<and> \<not> desired_state proc_B (started reboot_tick) [''B'']
   \<and> desired_state proc_B (started reboot_tick) []
   \<and> \<not> started crash_tick
   \<and> \<not> desired_state proc_B (started crash_tick) []"
  using
    desired_state_cases [where d = proc_A and te = reboot_tick and ign = "[''B'']"
      and kt = no_tags and procs = "[]" and sp = False and p = Map.empty and tes = "[]"
      and unreg = "[]" and env = plain_os]
    desired_state_cases [where d = proc_B and te = reboot_tick and ign = "[''B'']"
      and kt = no_tags and procs = "[]" and sp = False and p = Map.empty and tes = "[]"
      and unreg = "[]" and env = plain_os]
    desired_state_cases [where d = proc_B and te = reboot_tick and ign = "[]"
      and kt = no_tags and procs = "[]" and sp = False and p = Map.empty and tes = "[]"
      and unreg = "[]" and env = plain_os]
    desired_state_cases [where d = proc_B and te = crash_tick and ign = "[]"
      and kt = no_tags and procs = "[]" and sp = False and p = Map.empty and tes = "[]"
      and unreg = "[]" and env = plain_os]
  by (simp add: proc_A_def proc_B_def reboot_tick_def crash_tick_def)

section \<open>The reconciler\<close>

lemma desired_state_observed:
  "desired_state (d\<lparr>observed_state := s\<rparr>) onroad ign = desired_state d onroad ign"
  by (simp add: desired_state_def split: run_condition.splits)

lemma reconcile_process_settled:
  "reconcile_process onroad ign (snd (reconcile_process onroad ign d)) =
     ([], snd (reconcile_process onroad ign d))"
  by (simp add: reconcile_process_def desired_state_observed)

lemma reconcile_settled:
  "reconcile (snd (reconcile reg onroad ign)) onroad ign = ([], snd (reconcile reg onroad ign))"
proof (induction reg)
  case Nil
  then show ?case by simp
next
  case (Cons d ds)
  obtain a d' where p: "reconcile_process onroad ign d = (a, d')"
    by (cases "reconcile_process onroad ign d")
  obtain as ds' where r: "reconcile ds onroad ign = (as, ds')"
    by (cases "reconcile ds onroad ign")
  have p': "reconcile_process onroad ign d' = ([], d')"
    using reconcile_process_settled [of onroad ign d] p by simp
  have r': "reconcile ds' onroad ign = ([], ds')"
    using Cons.IH r by simp
  show ?case by (simp add: p r p' r')
qed

text \<open>
  A first invocation does issue actions: in an onroad tick with \<^verbatim>\<open>B\<close> ignored, the
  stopped process \<^verbatim>\<open>A\<close> is started and the stopped process \<^verbatim>\<open>B\<close> is left alone.
\<close>

lemma reconcile_scenario:
  "reconcile [proc_A, proc_B] True [''B''] =
     ([Start ''A''], [proc_A\<lparr>observed_state := STARTING\<rparr>, proc_B])"
  by (simp add: reconcile_process_def desired_state_def proc_A_def proc_B_def)

text \<open>
  C7: for every registry, mode and ignore list, a second invocation of the Reconciler,
  on the registry as the first invocation left it and with the same mode and ignore
  list, issues no action (no start and no stop), and leaves the registry as it is.
\<close>

theorem reconcile_idempotent:
  "fst (reconcile (snd (reconcile reg onroad ign)) onroad ign) = []
   \<and> snd (reconcile (snd (reconcile reg onroad ign)) onroad ign) = snd (reconcile reg onroad ign)"
  by (simp add: reconcile_settled)

end
